theory Spec2Isabelle
  imports Main "HOL-Library.Sublist"
begin

section \<open>Byte strings\<close>

text \<open>
  Go strings and byte slices are sequences of bytes; they are modelled as \<open>string\<close>
  (a list of 8-bit characters). The line feed is written \<open>\<newline>\<close>.
\<close>

text \<open>
  \<open>bytes.Index(data, sep)\<close> and \<open>strings.Index(s, sep)\<close>: the index of the first
  occurrence of \<open>sep\<close>, or \<open>-1\<close> (here \<open>None\<close>) when there is none.
\<close>

fun bytesIndex :: "string \<Rightarrow> string \<Rightarrow> nat option" where
  "bytesIndex [] sep = (if sep = [] then Some 0 else None)"
| "bytesIndex (x # xs) sep =
     (if prefix sep (x # xs) then Some 0 else map_option Suc (bytesIndex xs sep))"

text \<open>\<open>strings.HasSuffix(s, suffix)\<close>.\<close>

definition hasSuffix :: "string \<Rightarrow> string \<Rightarrow> bool" where
  "hasSuffix s suf = suffix suf s"

section \<open>Constants of \<open>main.go\<close>\<close>

definition yamlSeparator :: string where
  "yamlSeparator = ''---\<newline># Source: ''"

definition bufferSize :: nat where
  "bufferSize = 1048576"

section \<open>The tokenizer\<close>

text \<open>
  \<open>scanYamlSpecs(data, atEOF)\<close> returns \<open>(advance, token, err)\<close>; the error is always
  \<open>nil\<close>, and a \<open>nil\<close> token is \<open>None\<close>. The slice \<open>data[0:i]\<close> of a non-nil slice is
  non-nil also when \<open>i = 0\<close>, so an empty token is \<open>Some []\<close>.
\<close>

definition scanYamlSpecs :: "string \<Rightarrow> bool \<Rightarrow> nat \<times> string option" where
  "scanYamlSpecs data atEOF =
     (if atEOF \<and> data = [] then (0, None)
      else case bytesIndex data yamlSeparator of
             Some i \<Rightarrow> (i + length yamlSeparator, Some (take i data))
           | None \<Rightarrow> if atEOF then (length data, Some data) else (0, None))"

text \<open>
  One call of \<open>scanner.Scan()\<close> of \<open>bufio.Scanner\<close>, set up by \<open>processInput\<close> with
  \<open>scanYamlSpecs\<close> as split function and \<open>bufferSize\<close> as the largest buffer. The
  state of the scanner is the input not yet consumed. The scanner offers the split
  function ever longer prefixes of it, until a token comes back, the end of the input
  has been seen, or the buffer is full at its largest size without a token, which is
  the error \<open>ErrTooLong\<close>. Since \<open>scanYamlSpecs\<close> answers with a token as soon as the
  buffer holds a whole separator, what one call yields is what the split function says
  on the longest buffer the scanner can offer: the whole remaining input, at the end
  of the input, when it is shorter than \<open>bufferSize\<close>, and its first \<open>bufferSize\<close>
  bytes, not at the end of the input, otherwise.
\<close>

datatype scan_result =
    Token string string  \<comment> \<open>\<open>Scan\<close> returned true: the token, and the input left\<close>
  | NoToken              \<comment> \<open>\<open>Scan\<close> returned false, \<open>scanner.Err()\<close> is \<open>nil\<close>\<close>
  | TooLong              \<comment> \<open>\<open>Scan\<close> returned false, \<open>scanner.Err()\<close> is \<open>ErrTooLong\<close>\<close>

definition scannerScan :: "string \<Rightarrow> scan_result" where
  "scannerScan inp =
     (let atEOF = (length inp < bufferSize);
          data = (if atEOF then inp else take bufferSize inp)
      in case scanYamlSpecs data atEOF of
           (advance, Some tok) \<Rightarrow> Token tok (drop advance inp)
         | (advance, None) \<Rightarrow> if atEOF then NoToken else TooLong)"

section \<open>The spec splitter\<close>

definition splitSpec :: "string \<Rightarrow> string \<times> string" where
  "splitSpec tok =
     (case bytesIndex tok ''\<newline>'' of
        Some i \<Rightarrow> (take i tok, drop (i + 1) tok)
      | None \<Rightarrow> (tok, []))"

section \<open>Paths\<close>

text \<open>
  The functions \<open>path.Clean\<close>, \<open>path.Join\<close> and \<open>path.Dir\<close> of Go's standard library,
  on the path elements between slashes. \<open>Clean\<close> drops empty elements and \<open>.\<close>
  elements, lets a \<open>..\<close> element remove the element before it when that is not
  itself \<open>..\<close>, drops a \<open>..\<close> that would climb above the root of a rooted path and
  keeps it at the front of a relative one; the empty result is \<open>.\<close>.
\<close>

fun splitSlash :: "string \<Rightarrow> string list" where
  "splitSlash [] = [[]]"
| "splitSlash (c # cs) =
     (if c = CHR ''/'' then [] # splitSlash cs
      else (c # hd (splitSlash cs)) # tl (splitSlash cs))"

fun joinSlash :: "string list \<Rightarrow> string" where
  "joinSlash [] = []"
| "joinSlash [e] = e"
| "joinSlash (e # e' # es) = e @ ''/'' @ joinSlash (e' # es)"

definition cleanStep :: "bool \<Rightarrow> string list \<Rightarrow> string \<Rightarrow> string list" where
  "cleanStep rooted out e =
     (if e = [] \<or> e = ''.'' then out
      else if e = ''..'' then
        (if out \<noteq> [] \<and> last out \<noteq> ''..'' then butlast out
         else if \<not> rooted then out @ [''..'']
         else out)
      else out @ [e])"

definition pathClean :: "string \<Rightarrow> string" where
  "pathClean p =
     (if p = [] then ''.''
      else let rooted = (hd p = CHR ''/'');
               out = foldl (cleanStep rooted) [] (splitSlash p)
           in if rooted then ''/'' @ joinSlash out
              else if out = [] then ''.''
              else joinSlash out)"

text \<open>\<open>path.Join(a, b)\<close>: empty elements are ignored, the rest is joined and cleaned.\<close>

definition pathJoin :: "string \<Rightarrow> string \<Rightarrow> string" where
  "pathJoin a b =
     (if a = [] \<and> b = [] then []
      else if a = [] then pathClean b
      else if b = [] then pathClean a
      else pathClean (a @ ''/'' @ b))"

text \<open>\<open>path.Dir(p)\<close>: everything up to and including the last slash, cleaned.\<close>

definition dirPart :: "string \<Rightarrow> string" where
  "dirPart p = rev (dropWhile (\<lambda>c. c \<noteq> CHR ''/'') (rev p))"

definition pathDir :: "string \<Rightarrow> string" where
  "pathDir p = pathClean (dirPart p)"

section \<open>The file system\<close>

text \<open>
  The file system is a map from path names to nodes: a directory, or a regular file
  with its bytes. The operations of package \<open>os\<close> that \<open>main.go\<close> calls are functions on
  this map. They fail where the shape of the tree makes the system call fail (a file
  where a directory is needed, a directory where a file is needed, a missing entry);
  failures of the device (no space, no permission) are outside the model, and so are
  the permission bits \<open>dirPermissions\<close> and \<open>filePermissions\<close>. A relative name stands
  for itself: the names are the cleaned paths that \<open>path.Join\<close> and \<open>path.Dir\<close> return.
\<close>

datatype node = Dir | File string

type_synonym filesystem = "string \<rightharpoonup> node"

datatype errno = ENOENT | ENOTDIR | EISDIR

text \<open>\<open>os.Stat(name)\<close>: the node, or the error for which \<open>os.IsNotExist\<close> holds.\<close>

definition osStat :: "filesystem \<Rightarrow> string \<Rightarrow> errno + node" where
  "osStat fs name = (case fs name of None \<Rightarrow> Inl ENOENT | Some n \<Rightarrow> Inr n)"

text \<open>
  \<open>os.MkdirAll(path, perm)\<close>: nothing to do when \<open>path\<close> is a directory, an error when it
  is a file; otherwise the parent (the path up to its last slash, which names the same
  directory with and without that slash) is made first, then \<open>path\<close> itself with
  \<open>os.Mkdir\<close>, which succeeds since the parent is there and \<open>path\<close> is not.
\<close>

definition stripSlashes :: "string \<Rightarrow> string" where
  "stripSlashes p = rev (dropWhile (\<lambda>c. c = CHR ''/'') (rev p))"

definition parentPath :: "string \<Rightarrow> string" where
  "parentPath p = dirPart (stripSlashes p)"

definition dirName :: "string \<Rightarrow> string" where
  "dirName d = (if stripSlashes d = [] then ''/'' else stripSlashes d)"

text \<open>
  The parent that \<open>mkdirAll\<close> recurses on is a shorter name; this is what makes the
  recursion end.
\<close>

lemma length_stripSlashes: "length (stripSlashes p) \<le> length p"
  by (simp add: stripSlashes_def length_dropWhile_le [of _ "rev p", simplified])

lemma dirPart_shorter:
  assumes "p \<noteq> []" "last p \<noteq> CHR ''/''"
  shows "length (dirPart p) < length p"
proof -
  from assms obtain c cs where r: "rev p = c # cs" "c \<noteq> CHR ''/''"
    by (cases "rev p") (auto simp: last_rev [symmetric] hd_rev)
  have "length (dropWhile (\<lambda>c. c \<noteq> CHR ''/'') cs) \<le> length cs"
    by (rule length_dropWhile_le)
  with r have "length (dropWhile (\<lambda>c. c \<noteq> CHR ''/'') (rev p)) < length (rev p)"
    by simp
  then show ?thesis by (simp add: dirPart_def)
qed

lemma stripSlashes_last:
  "stripSlashes p \<noteq> [] \<Longrightarrow> last (stripSlashes p) \<noteq> CHR ''/''"
proof -
  assume ne: "stripSlashes p \<noteq> []"
  then have d: "dropWhile (\<lambda>c. c = CHR ''/'') (rev p) \<noteq> []"
    by (simp add: stripSlashes_def)
  then have "hd (dropWhile (\<lambda>c. c = CHR ''/'') (rev p)) \<noteq> CHR ''/''"
    using hd_dropWhile [of "\<lambda>c. c = CHR ''/''" "rev p"] by blast
  with d show ?thesis by (simp add: stripSlashes_def last_rev)
qed

lemma dirName_parentPath_shorter:
  assumes "parentPath p \<noteq> []"
  shows "length (dirName (parentPath p)) < length p"
proof -
  from assms have ne: "stripSlashes p \<noteq> []"
    by (auto simp: parentPath_def dirPart_def)
  have "length (parentPath p) < length (stripSlashes p)"
    unfolding parentPath_def by (rule dirPart_shorter [OF ne stripSlashes_last [OF ne]])
  moreover have "length (dirName (parentPath p)) \<le> length (parentPath p)"
    using assms length_stripSlashes [of "parentPath p"]
    by (cases "parentPath p") (auto simp: dirName_def)
  ultimately show ?thesis using length_stripSlashes [of p] by simp
qed

function mkdirAll :: "filesystem \<Rightarrow> string \<Rightarrow> errno + filesystem" where
  "mkdirAll fs p =
     (case fs p of
        Some Dir \<Rightarrow> Inr fs
      | Some (File old) \<Rightarrow> Inl ENOTDIR
      | None \<Rightarrow>
          if parentPath p \<noteq> [] then
            (case mkdirAll fs (dirName (parentPath p)) of
               Inl e \<Rightarrow> Inl e
             | Inr fs' \<Rightarrow> Inr (fs'(p \<mapsto> Dir)))
          else Inr (fs(p \<mapsto> Dir)))"
  by pat_completeness auto
termination
  by (relation "measure (\<lambda>(fs, p). length p)") (auto simp: dirName_parentPath_shorter)

declare mkdirAll.simps [simp del]

text \<open>
  \<open>os.WriteFile(name, data, perm)\<close> creates or truncates the file and writes \<open>data\<close>.
\<close>

definition osWriteFile :: "filesystem \<Rightarrow> string \<Rightarrow> string \<Rightarrow> errno + filesystem" where
  "osWriteFile fs name content =
     (case fs name of
        Some Dir \<Rightarrow> Inl EISDIR
      | _ \<Rightarrow> Inr (fs(name \<mapsto> File content)))"

text \<open>
  \<open>os.OpenFile(name, O_APPEND|O_WRONLY, perm)\<close>, without \<open>O_CREATE\<close>: the file must
  exist, and a directory cannot be opened for writing.
\<close>

definition osOpenAppend :: "filesystem \<Rightarrow> string \<Rightarrow> errno + unit" where
  "osOpenAppend fs name =
     (case fs name of
        None \<Rightarrow> Inl ENOENT
      | Some Dir \<Rightarrow> Inl EISDIR
      | Some (File old) \<Rightarrow> Inr ())"

text \<open>\<open>f.WriteString(s)\<close> on a file opened with \<open>O_APPEND\<close>: \<open>s\<close> goes after its bytes.\<close>

definition osWriteString :: "filesystem \<Rightarrow> string \<Rightarrow> string \<Rightarrow> errno + filesystem" where
  "osWriteString fs name s =
     (case fs name of
        Some (File old) \<Rightarrow> Inr (fs(name \<mapsto> File (old @ s)))
      | Some Dir \<Rightarrow> Inl EISDIR
      | None \<Rightarrow> Inl ENOENT)"

section \<open>The state of a run and its errors\<close>

text \<open>
  A run changes the file system and writes lines to the log (\<open>log.Printf\<close>,
  \<open>log.Println\<close>, without the time stamp the logger puts in front).
\<close>

record state =
  files :: filesystem
  logs :: "string list"

definition logLine :: "string \<Rightarrow> state \<Rightarrow> state" where
  "logLine msg st = st\<lparr>logs := logs st @ [msg]\<rparr>"

text \<open>The errors built with \<open>fmt.Errorf\<close>, one constructor for each format string.\<close>

datatype error =
    ErrCreatingDirectory string errno   \<comment> \<open>\<open>error creating directory %s: %w\<close>\<close>
  | ErrWritingNewFile string errno      \<comment> \<open>\<open>error writing new file %s: %w\<close>\<close>
  | ErrOpeningForAppend string errno    \<comment> \<open>\<open>error opening file %s for appending: %w\<close>\<close>
  | ErrAppending string errno           \<comment> \<open>\<open>error appending to file %s: %w\<close>\<close>
  | ErrCheckingFile string errno        \<comment> \<open>\<open>error checking file %s: %w\<close>\<close>
  | ErrReadingInitialInput              \<comment> \<open>\<open>error reading initial input: %w\<close>\<close>
  | ErrProcessSpec string error         \<comment> \<open>\<open>failed to process spec for source %s: %w\<close>\<close>
  | ErrScanningInput                    \<comment> \<open>\<open>error scanning input stream: %w\<close>\<close>

section \<open>The spec writer\<close>

text \<open>The separator of the append case, lines 134 to 137 of \<open>main.go\<close>.\<close>

definition appendSeparator :: "string \<Rightarrow> string" where
  "appendSeparator content =
     (let separator = ''\<newline>---\<newline>''
      in if \<not> hasSuffix content ''\<newline>'' then ''\<newline>'' @ separator else separator)"

text \<open>
  \<open>writeOrAppendSpec(outputDir, source, content)\<close>. The result is the error (\<open>None\<close> for
  \<open>nil\<close>) and the state the call leaves behind, also when it fails.
\<close>

definition writeOrAppendSpec ::
  "string \<Rightarrow> string \<Rightarrow> string \<Rightarrow> state \<Rightarrow> error option \<times> state" where
  "writeOrAppendSpec outputDir source content st =
     (let destinationFile = pathJoin outputDir source;
          dir = pathDir destinationFile
      in case mkdirAll (files st) dir of
           Inl e \<Rightarrow> (Some (ErrCreatingDirectory dir e), st)
         | Inr fs1 \<Rightarrow>
             (let st1 = st\<lparr>files := fs1\<rparr>
              in case osStat fs1 destinationFile of
                   Inl e \<Rightarrow>
                     if e = ENOENT then
                       (let st2 = logLine (''Creating '' @ destinationFile) st1
                        in case osWriteFile (files st2) destinationFile content of
                             Inl e' \<Rightarrow> (Some (ErrWritingNewFile destinationFile e'), st2)
                           | Inr fs2 \<Rightarrow> (None, st2\<lparr>files := fs2\<rparr>))
                     else (Some (ErrCheckingFile destinationFile e), st1)
                 | Inr info \<Rightarrow>
                     (let st2 = logLine (''Appending to '' @ destinationFile) st1
                      in case osOpenAppend (files st2) destinationFile of
                           Inl e' \<Rightarrow> (Some (ErrOpeningForAppend destinationFile e'), st2)
                         | Inr f \<Rightarrow>
                             (case osWriteString (files st2) destinationFile
                                     (appendSeparator content @ content) of
                                Inl e' \<Rightarrow> (Some (ErrAppending destinationFile e'), st2)
                              | Inr fs2 \<Rightarrow> (None, st2\<lparr>files := fs2\<rparr>)))))"

section \<open>The driving loop\<close>

text \<open>
  A token that \<open>Scan\<close> yields consumes at least one byte of the input, so the loop
  over the tokens ends.
\<close>

lemma bytesIndex_le: "bytesIndex xs sep = Some i \<Longrightarrow> i + length sep \<le> length xs"
proof (induction xs arbitrary: i)
  case Nil
  then show ?case by (simp split: if_splits)
next
  case (Cons x xs)
  show ?case
  proof (cases "prefix sep (x # xs)")
    case True
    with Cons.prems show ?thesis by (auto dest: prefix_length_le)
  next
    case False
    with Cons.prems obtain j where "bytesIndex xs sep = Some j" "i = Suc j" by auto
    with Cons.IH show ?thesis by simp
  qed
qed

lemma scannerScan_shorter:
  assumes "scannerScan inp = Token tok rest"
  shows "length rest < length inp"
proof -
  have sep: "0 < length yamlSeparator" by (simp add: yamlSeparator_def)
  show ?thesis
  proof (cases "length inp < bufferSize")
    case True
    with assms sep show ?thesis
      by (auto simp: scannerScan_def scanYamlSpecs_def Let_def
               split: if_splits option.splits dest: bytesIndex_le)
  next
    case False
    then have "0 < length inp" by (cases inp) (simp_all add: bufferSize_def)
    with False assms sep show ?thesis
      by (auto simp: scannerScan_def scanYamlSpecs_def Let_def
               split: if_splits option.splits)
  qed
qed

text \<open>
  The loop \<open>for scanner.Scan() { ... }\<close> of \<open>processInput\<close> with what follows it, on the
  input the scanner has not consumed yet.
\<close>

function processLoop :: "string \<Rightarrow> string \<Rightarrow> state \<Rightarrow> error option \<times> state" where
  "processLoop outputDir inp st =
     (case scannerScan inp of
        Token tok rest \<Rightarrow>
          (case splitSpec tok of
             (source, content) \<Rightarrow>
               if source = [] then
                 processLoop outputDir rest
                   (logLine ''Warning: Skipping empty source path in input.'' st)
               else
                 (case writeOrAppendSpec outputDir source content st of
                    (Some e, st') \<Rightarrow> (Some (ErrProcessSpec source e), st')
                  | (None, st') \<Rightarrow> processLoop outputDir rest st'))
      | NoToken \<Rightarrow> (None, st)
      | TooLong \<Rightarrow> (Some ErrScanningInput, st))"
  by pat_completeness auto
termination
  by (relation "measure (\<lambda>(outputDir, inp, st). length inp)")
     (auto simp: scannerScan_shorter)

declare processLoop.simps [simp del]

text \<open>\<open>processInput(outputDir)\<close>, with the bytes of standard input as second argument.\<close>

definition processInput :: "string \<Rightarrow> string \<Rightarrow> state \<Rightarrow> error option \<times> state" where
  "processInput outputDir inp st =
     (case scannerScan inp of
        NoToken \<Rightarrow>
          (None, logLine ''Warning: Input stream is empty or contains no separators.'' st)
      | TooLong \<Rightarrow> (Some ErrReadingInitialInput, st)
      | Token preamble rest \<Rightarrow> processLoop outputDir rest st)"

text \<open>All the records the scanner yields on an input, in order.\<close>

function scanAll :: "string \<Rightarrow> string list" where
  "scanAll inp =
     (case scannerScan inp of
        Token tok rest \<Rightarrow> tok # scanAll rest
      | NoToken \<Rightarrow> []
      | TooLong \<Rightarrow> [])"
  by pat_completeness auto
termination
  by (relation "measure length") (auto simp: scannerScan_shorter)

declare scanAll.simps [simp del]

text \<open>
  Two functions that serve the proofs about whole runs. \<open>processSpecs\<close> is the body of
  the loop of \<open>processInput\<close> applied to a list of specs that are already split, and
  \<open>scanFails\<close> says whether the scanner ends on an input with \<open>ErrTooLong\<close>. The
  lemma \<open>processLoop_processSpecs\<close> below shows that \<open>processLoop\<close> is the first
  applied to the specs of the records of \<open>scanAll\<close>, followed by the second.
\<close>

fun processSpecs :: "string \<Rightarrow> (string \<times> string) list \<Rightarrow> state \<Rightarrow> error option \<times> state" where
  "processSpecs outputDir [] st = (None, st)"
| "processSpecs outputDir ((source, content) # specs) st =
     (if source = [] then
        processSpecs outputDir specs
          (logLine ''Warning: Skipping empty source path in input.'' st)
      else
        (case writeOrAppendSpec outputDir source content st of
           (Some e, st') \<Rightarrow> (Some (ErrProcessSpec source e), st')
         | (None, st') \<Rightarrow> processSpecs outputDir specs st'))"

function scanFails :: "string \<Rightarrow> bool" where
  "scanFails inp =
     (case scannerScan inp of
        Token tok rest \<Rightarrow> scanFails rest
      | NoToken \<Rightarrow> False
      | TooLong \<Rightarrow> True)"
  by pat_completeness auto
termination
  by (relation "measure length") (auto simp: scannerScan_shorter)

declare scanFails.simps [simp del]

section \<open>Evaluation on concrete inputs\<close>

lemmas eval_scan = scannerScan_def scanYamlSpecs_def yamlSeparator_def bufferSize_def

lemmas eval_path = pathJoin_def pathDir_def pathClean_def cleanStep_def dirPart_def

lemmas eval_fs = mkdirAll.simps parentPath_def stripSlashes_def dirName_def osStat_def
  osWriteFile_def osOpenAppend_def osWriteString_def

lemmas eval_run = processInput_def processLoop.simps splitSpec_def writeOrAppendSpec_def
  logLine_def appendSeparator_def hasSuffix_def Let_def suffix_to_prefix

section \<open>Facts about the first occurrence of a separator\<close>

lemma bytesIndex_None_iff: "bytesIndex xs sep = None \<longleftrightarrow> \<not> sublist sep xs"
  by (induction xs) (auto simp: sublist_Cons_right)

lemma bytesIndex_drop: "bytesIndex xs sep = Some i \<Longrightarrow> prefix sep (drop i xs)"
proof (induction xs arbitrary: i)
  case Nil
  then show ?case by (simp split: if_splits)
next
  case (Cons x xs)
  show ?case
  proof (cases "prefix sep (x # xs)")
    case True
    with Cons.prems show ?thesis by simp
  next
    case False
    with Cons.prems obtain j where "bytesIndex xs sep = Some j" "i = Suc j" by auto
    with Cons.IH show ?thesis by simp
  qed
qed

lemma bytesIndex_take_no_sublist:
  "sep \<noteq> [] \<Longrightarrow> bytesIndex xs sep = Some i \<Longrightarrow> \<not> sublist sep (take i xs)"
proof (induction xs arbitrary: i)
  case Nil
  then show ?case by simp
next
  case (Cons x xs)
  show ?case
  proof (cases "prefix sep (x # xs)")
    case True
    with Cons.prems show ?thesis by simp
  next
    case False
    with Cons.prems obtain j where j: "bytesIndex xs sep = Some j" "i = Suc j" by auto
    have "\<not> prefix sep (x # take j xs)"
    proof
      assume "prefix sep (x # take j xs)"
      moreover have "prefix (x # take j xs) (x # xs)" by (simp add: take_is_prefix)
      ultimately have "prefix sep (x # xs)" by (rule prefix_order.trans)
      with False show False ..
    qed
    moreover from Cons.IH [OF Cons.prems(1) j(1)] have "\<not> sublist sep (take j xs)" .
    ultimately show ?thesis using j(2) by (simp add: sublist_Cons_right)
  qed
qed


lemma prefix_take_le: "prefix sep ys \<Longrightarrow> length sep \<le> n \<Longrightarrow> prefix sep (take n ys)"
  by (auto simp: prefix_def)

lemma prefix_of_take: "prefix sep (take n ys) \<Longrightarrow> prefix sep ys"
  using take_is_prefix prefix_order.trans by blast

lemma bytesIndex_take:
  "bytesIndex xs sep = Some i \<Longrightarrow> i + length sep \<le> n \<Longrightarrow> bytesIndex (take n xs) sep = Some i"
proof (induction xs arbitrary: i n)
  case Nil
  then show ?case by simp
next
  case (Cons x xs)
  show ?case
  proof (cases n)
    case 0
    with Cons.prems show ?thesis by (auto split: if_splits)
  next
    case (Suc m)
    show ?thesis
    proof (cases "prefix sep (x # xs)")
      case True
      with Cons.prems have "i = 0" by simp
      moreover from True Cons.prems(2) Suc have "prefix sep (take (Suc m) (x # xs))"
        by (intro prefix_take_le) simp_all
      ultimately show ?thesis using Suc by simp
    next
      case False
      with Cons.prems obtain j where j: "bytesIndex xs sep = Some j" "i = Suc j" by auto
      from False have "\<not> prefix sep (take (Suc m) (x # xs))"
        using prefix_of_take by blast
      moreover from Cons.IH [OF j(1), of m] Cons.prems(2) j(2) Suc
      have "bytesIndex (take m xs) sep = Some j" by simp
      ultimately show ?thesis using Suc j(2) by simp
    qed
  qed
qed

lemma bytesIndex_of_take:
  "bytesIndex (take n xs) sep = Some k \<Longrightarrow> bytesIndex xs sep = Some k"
proof (induction xs arbitrary: n k)
  case Nil
  then show ?case by simp
next
  case (Cons x xs)
  show ?case
  proof (cases n)
    case 0
    with Cons.prems show ?thesis by (auto split: if_splits)
  next
    case (Suc m)
    show ?thesis
    proof (cases "prefix sep (x # take m xs)")
      case True
      with Cons.prems Suc have "k = 0" by simp
      moreover from True have "prefix sep (x # xs)"
        using prefix_of_take [of sep "Suc m" "x # xs"] by simp
      ultimately show ?thesis by simp
    next
      case False
      with Cons.prems Suc obtain j where j: "bytesIndex (take m xs) sep = Some j" "k = Suc j"
        by auto
      from bytesIndex_le [OF j(1)] have "length sep \<le> Suc m" by simp
      with False have "\<not> prefix sep (x # xs)"
        using prefix_take_le [of sep "x # xs" "Suc m"] by auto
      with Cons.IH [OF j(1)] j(2) show ?thesis by simp
    qed
  qed
qed

lemma bytesIndex_take_None:
  assumes "bytesIndex xs sep = Some i" "n < i + length sep"
  shows "bytesIndex (take n xs) sep = None"
proof (cases "bytesIndex (take n xs) sep")
  case None
  then show ?thesis .
next
  case (Some k)
  from bytesIndex_of_take [OF Some] assms(1) have "k = i" by simp
  moreover from bytesIndex_le [OF Some] have "k + length sep \<le> n" by simp
  ultimately show ?thesis using assms(2) by simp
qed


section \<open>The tokenizer\<close>

lemma scannerScan_token_no_separator:
  assumes "scannerScan inp = Token tok rest"
  shows "\<not> sublist yamlSeparator tok"
proof -
  have ne: "yamlSeparator \<noteq> []" by (simp add: yamlSeparator_def)
  from assms show ?thesis
    by (auto simp: scannerScan_def scanYamlSpecs_def Let_def bytesIndex_None_iff
             split: if_splits option.splits
             dest: bytesIndex_take_no_sublist [OF ne])
qed

lemma scanAll_no_separator: "tok \<in> set (scanAll inp) \<Longrightarrow> \<not> sublist yamlSeparator tok"
proof (induction inp rule: scanAll.induct)
  case (1 inp)
  show ?case
  proof (cases "scannerScan inp")
    case (Token t rest)
    with "1.prems" have "tok = t \<or> tok \<in> set (scanAll rest)"
      by (simp add: scanAll.simps [of inp])
    then show ?thesis
    proof
      assume "tok = t"
      with Token show ?thesis by (simp add: scannerScan_token_no_separator)
    next
      assume "tok \<in> set (scanAll rest)"
      with "1.IH" Token show ?thesis by simp
    qed
  next
    case NoToken
    with "1.prems" show ?thesis by (simp add: scanAll.simps [of inp])
  next
    case TooLong
    with "1.prems" show ?thesis by (simp add: scanAll.simps [of inp])
  qed
qed

lemma splitSpec_sublists:
  "sublist (fst (splitSpec tok)) tok \<and> sublist (snd (splitSpec tok)) tok"
  by (auto simp: splitSpec_def split: option.splits)

text \<open>
  Claim C5. For every input, no record that the scanner yields contains the separator
  \<open>yamlSeparator\<close> as a substring, and so neither does the source path nor the content
  that \<open>splitSpec\<close> derives from the record.
\<close>

theorem records_never_contain_separator:
  assumes "tok \<in> set (scanAll inp)"
  shows "\<not> sublist yamlSeparator tok
       \<and> \<not> sublist yamlSeparator (fst (splitSpec tok))
       \<and> \<not> sublist yamlSeparator (snd (splitSpec tok))"
proof -
  have n: "\<not> sublist yamlSeparator tok" using assms by (rule scanAll_no_separator)
  moreover have "\<not> sublist yamlSeparator (fst (splitSpec tok))"
    using n splitSpec_sublists [of tok] sublist_order.order.trans by blast
  moreover have "\<not> sublist yamlSeparator (snd (splitSpec tok))"
    using n splitSpec_sublists [of tok] sublist_order.order.trans by blast
  ultimately show ?thesis by simp
qed

theorem records_never_contain_separator_witness:
  "''a.yaml\<newline>x: 1\<newline>'' \<in> set (scanAll ''pre\<newline>---\<newline># Source: a.yaml\<newline>x: 1\<newline>---\<newline># Source: b\<newline>y'')
   \<and> \<not> sublist yamlSeparator ''a.yaml\<newline>x: 1\<newline>''
   \<and> \<not> sublist yamlSeparator (fst (splitSpec ''a.yaml\<newline>x: 1\<newline>''))
   \<and> \<not> sublist yamlSeparator (snd (splitSpec ''a.yaml\<newline>x: 1\<newline>''))"
proof -
  have m: "''a.yaml\<newline>x: 1\<newline>'' \<in> set (scanAll ''pre\<newline>---\<newline># Source: a.yaml\<newline>x: 1\<newline>---\<newline># Source: b\<newline>y'')"
    by (simp add: scanAll.simps eval_scan)
  from m records_never_contain_separator [OF m] show ?thesis by simp
qed

lemma scannerScan_empty: "scannerScan [] = NoToken"
  by (simp add: scannerScan_def scanYamlSpecs_def bufferSize_def)

lemma scannerScan_separator:
  assumes "bytesIndex inp yamlSeparator = Some i"
  shows "scannerScan inp =
           (if i + length yamlSeparator \<le> bufferSize
            then Token (take i inp) (drop (i + length yamlSeparator) inp)
            else TooLong)"
proof (cases "length inp < bufferSize")
  case True
  moreover from assms have "inp \<noteq> []" by (auto simp: yamlSeparator_def)
  moreover from bytesIndex_le [OF assms] True have "i + length yamlSeparator \<le> bufferSize"
    by simp
  ultimately show ?thesis using assms by (simp add: scannerScan_def scanYamlSpecs_def)
next
  case False
  show ?thesis
  proof (cases "i + length yamlSeparator \<le> bufferSize")
    case le: True
    from bytesIndex_take [OF assms le] le False show ?thesis
      by (simp add: scannerScan_def scanYamlSpecs_def)
  next
    case gt: False
    then have "bufferSize < i + length yamlSeparator" by simp
    from bytesIndex_take_None [OF assms this] gt False show ?thesis
      by (simp add: scannerScan_def scanYamlSpecs_def)
  qed
qed

lemma scannerScan_no_separator:
  assumes "\<not> sublist yamlSeparator inp"
  shows "scannerScan inp =
           (if inp = [] then NoToken
            else if length inp < bufferSize then Token inp []
            else TooLong)"
proof -
  from assms have n: "bytesIndex inp yamlSeparator = None" by (simp add: bytesIndex_None_iff)
  have "\<not> sublist yamlSeparator (take bufferSize inp)"
    using assms sublist_take sublist_order.order.trans by blast
  then have "bytesIndex (take bufferSize inp) yamlSeparator = None"
    by (simp add: bytesIndex_None_iff)
  with n show ?thesis by (auto simp: scannerScan_def scanYamlSpecs_def bufferSize_def)
qed

lemma processLoop_empty: "processLoop outputDir [] st = (None, st)"
  by (simp add: processLoop.simps [of _ "[]"] scannerScan_empty)

text \<open>
  Claim C4. When the first separator of the input stands at offset \<open>i\<close>, the run is
  the run on the input without its first \<open>i\<close> bytes: the bytes before the first
  separator have no part in the files, the log or the result. (When these bytes with the
  separator do not fit the buffer of the scanner, the run fails on the first \<open>Scan\<close>
  and leaves the state as it was.)
\<close>

theorem preamble_discarded:
  assumes "bytesIndex inp yamlSeparator = Some i"
  shows "processInput outputDir inp st =
           (if i + length yamlSeparator \<le> bufferSize
            then processInput outputDir (drop i inp) st
            else (Some ErrReadingInitialInput, st))"
proof -
  have "bytesIndex (drop i inp) yamlSeparator = Some 0"
    using bytesIndex_drop [OF assms] by (cases "drop i inp") (auto simp: yamlSeparator_def)
  from scannerScan_separator [OF this]
  have "scannerScan (drop i inp) = Token [] (drop (i + length yamlSeparator) inp)"
    by (simp add: bufferSize_def yamlSeparator_def add.commute)
  with scannerScan_separator [OF assms] show ?thesis
    by (simp add: processInput_def)
qed

theorem preamble_discarded_witness:
  "bytesIndex ''junk\<newline>---\<newline># Source: a.yaml\<newline>x'' yamlSeparator = Some 5
   \<and> processInput ''out'' ''junk\<newline>---\<newline># Source: a.yaml\<newline>x'' \<lparr>files = [''out'' \<mapsto> Dir], logs = []\<rparr>
     = processInput ''out'' ''---\<newline># Source: a.yaml\<newline>x'' \<lparr>files = [''out'' \<mapsto> Dir], logs = []\<rparr>
   \<and> files (snd (processInput ''out'' ''junk\<newline>---\<newline># Source: a.yaml\<newline>x''
         \<lparr>files = [''out'' \<mapsto> Dir], logs = []\<rparr>)) ''out/a.yaml'' = Some (File ''x'')"
proof -
  have h: "bytesIndex ''junk\<newline>---\<newline># Source: a.yaml\<newline>x'' yamlSeparator = Some 5"
    by (simp add: yamlSeparator_def)
  have le: "5 + length yamlSeparator \<le> bufferSize"
    by (simp add: yamlSeparator_def bufferSize_def)
  have c: "files (snd (processInput ''out'' ''---\<newline># Source: a.yaml\<newline>x''
         \<lparr>files = [''out'' \<mapsto> Dir], logs = []\<rparr>)) ''out/a.yaml'' = Some (File ''x'')"
    by (simp add: eval_run eval_scan eval_path eval_fs)
  from h le c
    preamble_discarded [OF h, of "''out''" "\<lparr>files = [''out'' \<mapsto> Dir], logs = []\<rparr>"]
  show ?thesis by simp
qed

text \<open>
  Claim C6, amended. For every input without a separator that is shorter than
  \<open>bufferSize\<close>, the run ends without an error and leaves the file system as it was;
  on the empty input it logs the warning.
\<close>

theorem no_separator_no_files:
  assumes "\<not> sublist yamlSeparator inp" and "length inp < bufferSize"
  shows "fst (processInput outputDir inp st) = None
       \<and> files (snd (processInput outputDir inp st)) = files st
       \<and> (inp = [] \<longrightarrow> logs (snd (processInput outputDir inp st)) =
             logs st @ [''Warning: Input stream is empty or contains no separators.''])"
  using assms
  by (simp add: processInput_def scannerScan_no_separator processLoop_empty logLine_def)

theorem no_separator_no_files_witness:
  "\<not> sublist yamlSeparator [] \<and> length ([] :: string) < bufferSize
   \<and> fst (processInput ''out'' [] \<lparr>files = [''out'' \<mapsto> Dir], logs = []\<rparr>) = None
   \<and> files (snd (processInput ''out'' [] \<lparr>files = [''out'' \<mapsto> Dir], logs = []\<rparr>))
       = [''out'' \<mapsto> Dir]
   \<and> logs (snd (processInput ''out'' [] \<lparr>files = [''out'' \<mapsto> Dir], logs = []\<rparr>))
       = [''Warning: Input stream is empty or contains no separators.'']"
proof -
  have h1: "\<not> sublist yamlSeparator []" by (simp add: yamlSeparator_def)
  have h2: "length ([] :: string) < bufferSize" by (simp add: bufferSize_def)
  from h1 h2 no_separator_no_files [OF h1 h2, of "''out''" "\<lparr>files = [''out'' \<mapsto> Dir], logs = []\<rparr>"]
  show ?thesis by simp
qed

text \<open>
  An input of two mebibytes without a separator does not fit the buffer: the first
  \<open>Scan\<close> ends with \<open>ErrTooLong\<close> and the run fails.
\<close>

lemma replicate_no_separator: "\<not> sublist yamlSeparator (replicate n (CHR ''a''))"
proof
  assume "sublist yamlSeparator (replicate n (CHR ''a''))"
  then have "set yamlSeparator \<subseteq> set (replicate n (CHR ''a''))" by (rule set_mono_sublist)
  then show False by (auto simp: yamlSeparator_def)
qed

theorem no_separator_counterexample:
  "\<not> sublist yamlSeparator (replicate 2097152 (CHR ''a''))
   \<and> processInput ''out'' (replicate 2097152 (CHR ''a'')) \<lparr>files = [''out'' \<mapsto> Dir], logs = []\<rparr>
       = (Some ErrReadingInitialInput, \<lparr>files = [''out'' \<mapsto> Dir], logs = []\<rparr>)"
  by (simp add: replicate_no_separator processInput_def scannerScan_no_separator bufferSize_def)

text \<open>
  On an input that is not empty and has no separator, the first \<open>Scan\<close> yields the
  whole input as a token. The run then ends without the warning whose text speaks of
  an input that contains no separators.
\<close>

lemma no_warning_without_separator:
  "processInput ''out'' ''foo: 1\<newline>'' \<lparr>files = [''out'' \<mapsto> Dir], logs = []\<rparr>
     = (None, \<lparr>files = [''out'' \<mapsto> Dir], logs = []\<rparr>)"
  by (simp add: eval_run eval_scan)

section \<open>The spec splitter\<close>




section \<open>The spec writer\<close>

lemma mkdirAll_keeps: "mkdirAll fs p = Inr fs' \<Longrightarrow> fs q = Some n \<Longrightarrow> fs' q = Some n"
proof (induction fs p arbitrary: fs' rule: mkdirAll.induct)
  case (1 fs p)
  from "1.prems" show ?case
    by (subst (asm) mkdirAll.simps)
       (auto split: option.splits node.splits if_splits sum.splits dest: "1.IH")
qed


lemma mkdirAll_existing: "fs p = Some Dir \<Longrightarrow> mkdirAll fs p = Inr fs"
  by (simp add: mkdirAll.simps)

lemma appendSeparator_eq:
  "appendSeparator content =
     (if suffix ''\<newline>'' content then ''\<newline>---\<newline>'' else ''\<newline>\<newline>---\<newline>'')"
  by (simp add: appendSeparator_def hasSuffix_def)

text \<open>
  Claim C2. When the destination is a regular file (in a directory that exists), the
  call appends to the bytes of the file a separator and then the content. The separator
  is \<open>\<newline>---\<newline>\<close> when the content to append ends with a line feed and
  \<open>\<newline>\<newline>---\<newline>\<close> when it does not: it is a function of the incoming content
  alone, whatever the file holds.
\<close>

theorem append_separator_from_incoming_content:
  assumes "files st (pathJoin outputDir source) = Some (File old)"
      and "files st (pathDir (pathJoin outputDir source)) = Some Dir"
  shows "writeOrAppendSpec outputDir source content st =
           (None,
            st\<lparr>files := (files st)(pathJoin outputDir source \<mapsto>
                 File (old @ (if suffix ''\<newline>'' content then ''\<newline>---\<newline>''
                              else ''\<newline>\<newline>---\<newline>'') @ content)),
               logs := logs st @ [''Appending to '' @ pathJoin outputDir source]\<rparr>)"
  using assms
  by (simp add: writeOrAppendSpec_def mkdirAll_existing osStat_def osOpenAppend_def
                osWriteString_def logLine_def appendSeparator_eq Let_def)

theorem append_separator_from_incoming_content_witness:
  "files \<lparr>files = [''out'' \<mapsto> Dir, ''out/a.yaml'' \<mapsto> File ''foo: 1''], logs = []\<rparr>
      (pathJoin ''out'' ''a.yaml'') = Some (File ''foo: 1'')
   \<and> files \<lparr>files = [''out'' \<mapsto> Dir, ''out/a.yaml'' \<mapsto> File ''foo: 1''], logs = []\<rparr>
      (pathDir (pathJoin ''out'' ''a.yaml'')) = Some Dir
   \<and> files (snd (writeOrAppendSpec ''out'' ''a.yaml'' ''bar: 2\<newline>''
        \<lparr>files = [''out'' \<mapsto> Dir, ''out/a.yaml'' \<mapsto> File ''foo: 1''], logs = []\<rparr>))
      ''out/a.yaml'' = Some (File ''foo: 1\<newline>---\<newline>bar: 2\<newline>'')
   \<and> files (snd (writeOrAppendSpec ''out'' ''a.yaml'' ''bar: 2''
        \<lparr>files = [''out'' \<mapsto> Dir, ''out/a.yaml'' \<mapsto> File ''foo: 1''], logs = []\<rparr>))
      ''out/a.yaml'' = Some (File ''foo: 1\<newline>\<newline>---\<newline>bar: 2'')"
proof -
  let ?st = "\<lparr>files = [''out'' \<mapsto> Dir, ''out/a.yaml'' \<mapsto> File ''foo: 1''], logs = []\<rparr>"
  have j: "pathJoin ''out'' ''a.yaml'' = ''out/a.yaml''" by (simp add: eval_path)
  have h1: "files ?st (pathJoin ''out'' ''a.yaml'') = Some (File ''foo: 1'')"
    by (simp add: j)
  have h2: "files ?st (pathDir (pathJoin ''out'' ''a.yaml'')) = Some Dir"
    by (simp add: j) (simp add: eval_path)
  from h1 h2
    append_separator_from_incoming_content [OF h1 h2, of "''bar: 2\<newline>''"]
    append_separator_from_incoming_content [OF h1 h2, of "''bar: 2''"]
  show ?thesis by (simp add: j suffix_to_prefix)
qed

text \<open>
  Claim C3. The claim makes the extra line feed depend on the bytes already in the
  file; the code decides it from the incoming content. Two runs show the difference.
  In the first the content written before, \<open>foo: 1\<newline>\<close>, ends with a line feed
  and the extra line feed is there all the same; in the second the content written
  before, \<open>foo: 1\<close>, has no line feed at its end and there is no extra one.
\<close>

theorem separator_ignores_existing_content:
  "files (snd (processInput ''out''
      ''---\<newline># Source: a.yaml\<newline>foo: 1\<newline>---\<newline># Source: a.yaml\<newline>bar: 2''
      \<lparr>files = [''out'' \<mapsto> Dir], logs = []\<rparr>)) ''out/a.yaml''
     = Some (File ''foo: 1\<newline>\<newline>\<newline>---\<newline>bar: 2'')
   \<and> files (snd (processInput ''out''
      ''---\<newline># Source: a.yaml\<newline>foo: 1---\<newline># Source: a.yaml\<newline>bar: 2\<newline>''
      \<lparr>files = [''out'' \<mapsto> Dir], logs = []\<rparr>)) ''out/a.yaml''
     = Some (File ''foo: 1\<newline>---\<newline>bar: 2\<newline>'')"
  by (simp add: eval_run eval_scan eval_path eval_fs)


lemma writeOrAppendSpec_error_keeps:
  assumes "writeOrAppendSpec outputDir source content st = (Some e, st')"
      and "files st q = Some n"
  shows "files st' q = Some n"
proof (cases "mkdirAll (files st) (pathDir (pathJoin outputDir source))")
  case (Inl e)
  with assms show ?thesis by (auto simp: writeOrAppendSpec_def Let_def)
next
  case (Inr fs1)
  from assms Inr have "files st' = fs1"
    by (auto simp: writeOrAppendSpec_def Let_def osStat_def osWriteFile_def osOpenAppend_def
                   osWriteString_def logLine_def
             split: option.splits node.splits if_splits sum.splits)
  with mkdirAll_keeps [OF Inr assms(2)] show ?thesis by simp
qed


lemma splitSlash_plain: "CHR ''/'' \<notin> set a \<Longrightarrow> splitSlash a = [a]"
  by (induction a) auto

lemma splitSlash_append:
  "CHR ''/'' \<notin> set a \<Longrightarrow> splitSlash (a @ CHR ''/'' # b) = a # splitSlash b"
  by (induction a) auto

lemma dirPart_plain: "CHR ''/'' \<notin> set a \<Longrightarrow> dirPart a = []"
  by (auto simp: dirPart_def dropWhile_eq_Nil_conv)

lemma pathJoin_dotdot:
  assumes "root \<noteq> []" "CHR ''/'' \<notin> set root" "root \<noteq> ''.''" "root \<noteq> ''..''"
      and "name \<noteq> []" "CHR ''/'' \<notin> set name" "name \<noteq> ''.''" "name \<noteq> ''..''"
  shows "pathJoin root (''../'' @ name) = name"
proof -
  have s: "splitSlash (root @ ''/'' @ ''../'' @ name) = [root, ''..'', name]"
    using assms(2,6) splitSlash_append [of root "''../'' @ name"]
      splitSlash_append [of "''..''" name] splitSlash_plain [of name]
    by simp
  from assms(1,2) have h: "hd (root @ ''/'' @ ''../'' @ name) \<noteq> CHR ''/''"
    by (cases root) auto
  have "pathClean (root @ ''/'' @ ''../'' @ name) = name"
    using assms h unfolding pathClean_def s by (simp add: cleanStep_def Let_def)
  with assms(1) show ?thesis by (simp add: pathJoin_def)
qed

text \<open>
  Claim C10. The destination is the cleaned join of the output root and the source
  path, and nothing checks that it lies under the root. For a root that is a plain
  directory name and a source path \<open>../name\<close>, the destination is \<open>name\<close>, beside
  the root and not under it, and the call writes the content there.
\<close>

theorem written_outside_output_root:
  assumes "root \<noteq> []" "CHR ''/'' \<notin> set root" "root \<noteq> ''.''" "root \<noteq> ''..''"
      and "name \<noteq> []" "CHR ''/'' \<notin> set name" "name \<noteq> ''.''" "name \<noteq> ''..''"
      and "files st ''.'' = Some Dir"
      and "files st name = None"
  shows "pathJoin root (''../'' @ name) = name
       \<and> \<not> prefix (root @ ''/'') (pathJoin root (''../'' @ name))
       \<and> writeOrAppendSpec root (''../'' @ name) content st =
           (None, st\<lparr>files := (files st)(name \<mapsto> File content),
                      logs := logs st @ [''Creating '' @ name]\<rparr>)"
proof -
  have j: "pathJoin root (''../'' @ name) = name"
    using assms(1-8) by (rule pathJoin_dotdot)
  have "\<not> prefix (root @ ''/'') name"
  proof
    assume "prefix (root @ ''/'') name"
    then have "set (root @ ''/'') \<subseteq> set name" by (rule set_mono_prefix)
    with assms(6) show False by simp
  qed
  moreover have d: "pathDir name = ''.''"
    using assms(6) by (simp add: pathDir_def dirPart_plain pathClean_def)
  moreover have "writeOrAppendSpec root (''../'' @ name) content st =
           (None, st\<lparr>files := (files st)(name \<mapsto> File content),
                      logs := logs st @ [''Creating '' @ name]\<rparr>)"
    unfolding writeOrAppendSpec_def j d using assms(9,10)
    by (simp add: d mkdirAll_existing osStat_def osWriteFile_def logLine_def Let_def)
  ultimately show ?thesis using j by simp
qed

theorem written_outside_output_root_witness:
  "files \<lparr>files = [''.'' \<mapsto> Dir, ''out'' \<mapsto> Dir], logs = []\<rparr> ''.'' = Some Dir
   \<and> files \<lparr>files = [''.'' \<mapsto> Dir, ''out'' \<mapsto> Dir], logs = []\<rparr> ''evil.yaml'' = None
   \<and> pathJoin ''out'' ''../evil.yaml'' = ''evil.yaml''
   \<and> \<not> prefix ''out/'' (pathJoin ''out'' ''../evil.yaml'')
   \<and> files (snd (writeOrAppendSpec ''out'' ''../evil.yaml'' ''x: 1''
        \<lparr>files = [''.'' \<mapsto> Dir, ''out'' \<mapsto> Dir], logs = []\<rparr>)) ''evil.yaml'' = Some (File ''x: 1'')"
  using written_outside_output_root [of "''out''" "''evil.yaml''"
      "\<lparr>files = [''.'' \<mapsto> Dir, ''out'' \<mapsto> Dir], logs = []\<rparr>" "''x: 1''"]
  by simp

section \<open>The driving loop: errors and skipped specs\<close>

text \<open>
  Claim C8. When the writer returns an error for the record the loop stands at, the
  run ends at once with that error, in the state the failing call left: whatever
  follows in the input is neither processed nor written, and every file and directory
  that was there before the failing call is still there, unchanged.
\<close>

theorem writer_error_aborts_run:
  assumes "scannerScan inp = Token tok rest"
      and "splitSpec tok = (source, content)"
      and "source \<noteq> []"
      and "writeOrAppendSpec outputDir source content st = (Some e, st')"
  shows "processLoop outputDir inp st = (Some (ErrProcessSpec source e), st')
       \<and> (\<forall>p n. files st p = Some n \<longrightarrow> files st' p = Some n)"
  using assms writeOrAppendSpec_error_keeps [OF assms(4)]
  by (simp add: processLoop.simps [of outputDir inp])

theorem writer_error_aborts_run_witness:
  "scannerScan ''b\<newline>y---\<newline># Source: c.yaml\<newline>z'' = Token ''b\<newline>y'' ''c.yaml\<newline>z''
   \<and> splitSpec ''b\<newline>y'' = (''b'', ''y'')
   \<and> writeOrAppendSpec ''out'' ''b'' ''y''
        \<lparr>files = [''out'' \<mapsto> Dir, ''out/b'' \<mapsto> Dir, ''out/a.yaml'' \<mapsto> File ''x''], logs = []\<rparr>
      = (Some (ErrOpeningForAppend ''out/b'' EISDIR),
         \<lparr>files = [''out'' \<mapsto> Dir, ''out/b'' \<mapsto> Dir, ''out/a.yaml'' \<mapsto> File ''x''],
          logs = [''Appending to out/b'']\<rparr>)
   \<and> processLoop ''out'' ''b\<newline>y---\<newline># Source: c.yaml\<newline>z''
        \<lparr>files = [''out'' \<mapsto> Dir, ''out/b'' \<mapsto> Dir, ''out/a.yaml'' \<mapsto> File ''x''], logs = []\<rparr>
      = (Some (ErrProcessSpec ''b'' (ErrOpeningForAppend ''out/b'' EISDIR)),
         \<lparr>files = [''out'' \<mapsto> Dir, ''out/b'' \<mapsto> Dir, ''out/a.yaml'' \<mapsto> File ''x''],
          logs = [''Appending to out/b'']\<rparr>)"
proof -
  let ?st = "\<lparr>files = [''out'' \<mapsto> Dir, ''out/b'' \<mapsto> Dir, ''out/a.yaml'' \<mapsto> File ''x''], logs = []\<rparr>"
  let ?st' = "\<lparr>files = [''out'' \<mapsto> Dir, ''out/b'' \<mapsto> Dir, ''out/a.yaml'' \<mapsto> File ''x''],
          logs = [''Appending to out/b'']\<rparr>"
  have h1: "scannerScan ''b\<newline>y---\<newline># Source: c.yaml\<newline>z'' = Token ''b\<newline>y'' ''c.yaml\<newline>z''"
    by (simp add: eval_scan)
  have h2: "splitSpec ''b\<newline>y'' = (''b'', ''y'')" by (simp add: splitSpec_def)
  have h3: "''b'' \<noteq> []" by simp
  have h4: "writeOrAppendSpec ''out'' ''b'' ''y'' ?st
      = (Some (ErrOpeningForAppend ''out/b'' EISDIR), ?st')"
    by (simp add: writeOrAppendSpec_def eval_path eval_fs logLine_def Let_def)
  from h1 h2 h4 writer_error_aborts_run [OF h1 h2 h3 h4] show ?thesis by simp
qed

text \<open>
  Claim C9. When the record the loop stands at has an empty source path, the loop
  logs a warning, writes nothing for it (only the log changes) and goes on with the
  rest of the input.
\<close>

theorem empty_source_path_skipped:
  assumes "scannerScan inp = Token tok rest"
      and "fst (splitSpec tok) = []"
  shows "processLoop outputDir inp st =
           processLoop outputDir rest
             (st\<lparr>logs := logs st @ [''Warning: Skipping empty source path in input.'']\<rparr>)"
  using assms
  by (cases "splitSpec tok") (simp add: processLoop.simps [of outputDir inp] logLine_def)

theorem empty_source_path_skipped_witness:
  "scannerScan ''---\<newline># Source: a.yaml\<newline>x'' = Token [] ''a.yaml\<newline>x''
   \<and> fst (splitSpec []) = []
   \<and> processLoop ''out'' ''---\<newline># Source: a.yaml\<newline>x'' \<lparr>files = [''out'' \<mapsto> Dir], logs = []\<rparr>
     = processLoop ''out'' ''a.yaml\<newline>x''
         \<lparr>files = [''out'' \<mapsto> Dir], logs = [''Warning: Skipping empty source path in input.'']\<rparr>
   \<and> files (snd (processLoop ''out'' ''a.yaml\<newline>x''
         \<lparr>files = [''out'' \<mapsto> Dir], logs = [''Warning: Skipping empty source path in input.'']\<rparr>))
       ''out/a.yaml'' = Some (File ''x'')"
proof -
  have h1: "scannerScan ''---\<newline># Source: a.yaml\<newline>x'' = Token [] ''a.yaml\<newline>x''"
    by (simp add: eval_scan)
  have h2: "fst (splitSpec []) = []" by (simp add: splitSpec_def)
  have c: "files (snd (processLoop ''out'' ''a.yaml\<newline>x''
         \<lparr>files = [''out'' \<mapsto> Dir], logs = [''Warning: Skipping empty source path in input.'']\<rparr>))
       ''out/a.yaml'' = Some (File ''x'')"
    by (simp add: eval_run eval_scan eval_path eval_fs)
  from h1 h2 c
    empty_source_path_skipped [OF h1 h2, of "''out''" "\<lparr>files = [''out'' \<mapsto> Dir], logs = []\<rparr>"]
  show ?thesis by simp
qed

section \<open>Whole runs\<close>

lemma processLoop_processSpecs:
  "processLoop outputDir inp st =
     (case processSpecs outputDir (map splitSpec (scanAll inp)) st of
        (Some e, st') \<Rightarrow> (Some e, st')
      | (None, st') \<Rightarrow> (if scanFails inp then Some ErrScanningInput else None, st'))"
proof (induction outputDir inp st rule: processLoop.induct)
  case (1 outputDir inp st)
  show ?case
  proof (cases "scannerScan inp")
    case (Token tok rest)
    obtain source content where sp: "splitSpec tok = (source, content)"
      by (cases "splitSpec tok")
    show ?thesis
    proof (cases "source = []")
      case True
      with "1.IH"(1) [OF Token sp [symmetric] True] Token sp show ?thesis
        by (simp add: processLoop.simps [of outputDir inp] scanAll.simps [of inp]
                      scanFails.simps [of inp])
    next
      case False
      obtain r st' where w: "writeOrAppendSpec outputDir source content st = (r, st')"
        by (cases "writeOrAppendSpec outputDir source content st")
      show ?thesis
      proof (cases r)
        case None
        with "1.IH"(2) [OF Token sp [symmetric] False w [symmetric]] Token sp False w
        show ?thesis
          by (simp add: processLoop.simps [of outputDir inp] scanAll.simps [of inp]
                        scanFails.simps [of inp])
      next
        case (Some e)
        with Token sp False w show ?thesis
          by (simp add: processLoop.simps [of outputDir inp] scanAll.simps [of inp])
      qed
    qed
  next
    case NoToken
    then show ?thesis
      by (simp add: processLoop.simps [of outputDir inp] scanAll.simps [of inp]
                    scanFails.simps [of inp])
  next
    case TooLong
    then show ?thesis
      by (simp add: processLoop.simps [of outputDir inp] scanAll.simps [of inp]
                    scanFails.simps [of inp])
  qed
qed

lemma processSpecs_append:
  "processSpecs outputDir (xs @ ys) st =
     (case processSpecs outputDir xs st of
        (Some e, st') \<Rightarrow> (Some e, st')
      | (None, st') \<Rightarrow> processSpecs outputDir ys st')"
proof (induction xs arbitrary: st)
  case Nil
  then show ?case by simp
next
  case (Cons x xs)
  obtain source content where x: "x = (source, content)" by (cases x)
  show ?case
    by (cases "writeOrAppendSpec outputDir source content st")
       (auto simp: x Cons.IH split: option.splits)
qed

lemma processInput_processSpecs:
  assumes "scannerScan inp = Token preamble rest"
  shows "processInput outputDir inp st =
     (case processSpecs outputDir (map splitSpec (tl (scanAll inp))) st of
        (Some e, st') \<Rightarrow> (Some e, st')
      | (None, st') \<Rightarrow> (if scanFails inp then Some ErrScanningInput else None, st'))"
  using assms
  by (simp add: processInput_def processLoop_processSpecs scanAll.simps [of inp]
                scanFails.simps [of inp])

text \<open>
  The two facts about the loop, for a record anywhere in a run: \<open>st1\<close> is the state
  that the specs before it have left.
\<close>

lemma run_aborts_at_writer_error:
  assumes "map splitSpec (tl (scanAll inp)) = before @ (source, content) # after"
      and "processSpecs outputDir before st = (None, st1)"
      and "source \<noteq> []"
      and "writeOrAppendSpec outputDir source content st1 = (Some e, st2)"
  shows "processInput outputDir inp st = (Some (ErrProcessSpec source e), st2)"
proof -
  from assms(1) obtain preamble rest where "scannerScan inp = Token preamble rest"
    by (cases "scannerScan inp") (auto simp: scanAll.simps [of inp])
  from processInput_processSpecs [OF this] assms show ?thesis
    by (simp add: processSpecs_append)
qed

lemma run_continues_after_empty_source_path:
  assumes "map splitSpec (tl (scanAll inp)) = before @ ([], content) # after"
      and "processSpecs outputDir before st = (None, st1)"
  shows "processInput outputDir inp st =
     (case processSpecs outputDir after
             (logLine ''Warning: Skipping empty source path in input.'' st1) of
        (Some e, st') \<Rightarrow> (Some e, st')
      | (None, st') \<Rightarrow> (if scanFails inp then Some ErrScanningInput else None, st'))"
proof -
  from assms(1) obtain preamble rest where "scannerScan inp = Token preamble rest"
    by (cases "scannerScan inp") (auto simp: scanAll.simps [of inp])
  from processInput_processSpecs [OF this] assms show ?thesis
    by (simp add: processSpecs_append)
qed





end
